theory Spec2Isabelle
  imports Main "HOL-Library.Sublist"
begin

section \<open>Data model\<close>

text \<open>
  The userscript exists in two variants, \<^verbatim>\<open>src/tampermonkey.js\<close> (one static button) and
  \<^verbatim>\<open>src/unnamed/part_000\<close> (the button follows the navigation tab through a
  MutationObserver). The body of the click handler is the same text in both.

  Values that end up in a slot array. Item identifiers are integers; \<open>Undefined\<close> is the
  element that \<^verbatim>\<open>Array.prototype.concat\<close> appends when its argument is \<^verbatim>\<open>undefined\<close>
  (an argument that is not an array is appended as one element).
\<close>

datatype jsval = Undefined | Num int

text \<open>
  An equipment-set record of \<^verbatim>\<open>savedequip\<close>. Every field may be absent on the JavaScript
  object: \<open>None\<close> is \<^verbatim>\<open>undefined\<close>.
\<close>

record equip =
  name :: "string option"
  accessory :: "int list option"
  head :: "int list option"
  boots :: "int list option"
  armor :: "int list option"
  pants :: "int list option"
  weapon :: "int list option"

record optimizer_state =
  savedequip :: "equip list option"

record app_state =
  optimizer :: "optimizer_state option"

text \<open>
  Every place of the script where an exception can be raised, one constructor per place:
  six in the click handler, the last one in \<^verbatim>\<open>addSyncButton\<close>. In the browser all but the
  second are TypeErrors (a property read on \<^verbatim>\<open>undefined\<close> or \<^verbatim>\<open>null\<close>).
\<close>

datatype error =
    RootLookupError
  | GetStateError
  | ReadOptimizerOfUndefined
  | ReadSavedequipOfUndefined
  | ReadMapOfUndefined
  | ReadConcatOfUndefined
  | ReadAppendChildOfUndefined

text \<open>The object literal \<^verbatim>\<open>{[x.name]: v}\<close>: a mapping with one key.\<close>

type_synonym entry = "string \<rightharpoonup> jsval list"

section \<open>Transformation\<close>

text \<open>
  \<^verbatim>\<open>a.concat(b)\<close> for an array \<open>a\<close>: the elements of \<open>b\<close> when \<open>b\<close> is an array, the single
  element \<^verbatim>\<open>undefined\<close> when \<open>b\<close> is \<^verbatim>\<open>undefined\<close>.
\<close>

fun concat_js :: "jsval list \<Rightarrow> int list option \<Rightarrow> jsval list" where
  "concat_js a None = a @ [Undefined]"
| "concat_js a (Some b) = a @ map Num b"

text \<open>
  The predicate \<^verbatim>\<open>x => x < 10000\<close>. \<^verbatim>\<open>undefined < 10000\<close> compares \<^verbatim>\<open>NaN\<close> with 10000 and
  is false.
\<close>

fun lt_10000 :: "jsval \<Rightarrow> bool" where
  "lt_10000 Undefined = False"
| "lt_10000 (Num v) = (v < 10000)"

text \<open>
  \<^verbatim>\<open>x.accessory.concat(x.head).concat(x.boots).concat(x.armor).concat(x.pants).concat(x.weapon)\<close>:
  reading \<^verbatim>\<open>concat\<close> on an absent \<^verbatim>\<open>accessory\<close> throws; no other step of the chain can.
\<close>

definition concat_slots :: "equip \<Rightarrow> error + jsval list" where
  "concat_slots x =
     (case accessory x of
        None \<Rightarrow> Inl ReadConcatOfUndefined
      | Some a \<Rightarrow>
          Inr (concat_js (concat_js (concat_js (concat_js (concat_js (map Num a)
                 (head x)) (boots x)) (armor x)) (pants x)) (weapon x)))"

text \<open>The chain followed by \<^verbatim>\<open>.filter(x => x < 10000)\<close>: the value of the one-key object.\<close>

definition slot_values :: "equip \<Rightarrow> error + jsval list" where
  "slot_values x =
     (case concat_slots x of
        Inl e \<Rightarrow> Inl e
      | Inr cs \<Rightarrow> Inr (filter lt_10000 cs))"

text \<open>
  The callback of \<^verbatim>\<open>savedequip.map\<close>: a record with a name gives the one-key object, a
  record without one falls off the end of the arrow function and gives \<^verbatim>\<open>undefined\<close>
  (\<open>None\<close>).
\<close>

definition callback :: "equip \<Rightarrow> error + entry option" where
  "callback x =
     (case name x of
        None \<Rightarrow> Inr None
      | Some n \<Rightarrow>
          (case slot_values x of
             Inl e \<Rightarrow> Inl e
           | Inr vs \<Rightarrow> Inr (Some [n \<mapsto> vs])))"

text \<open>\<^verbatim>\<open>.map(callback)\<close>, left to right; the first exception ends it.\<close>

fun map_pass :: "equip list \<Rightarrow> error + entry option list" where
  "map_pass [] = Inr []"
| "map_pass (x # xs) =
     (case callback x of
        Inl e \<Rightarrow> Inl e
      | Inr y \<Rightarrow> (case map_pass xs of Inl e \<Rightarrow> Inl e | Inr ys \<Rightarrow> Inr (y # ys)))"

text \<open>\<^verbatim>\<open>.filter(x => x !== undefined)\<close>.\<close>

fun filter_pass :: "entry option list \<Rightarrow> entry list" where
  "filter_pass [] = []"
| "filter_pass (None # ys) = filter_pass ys"
| "filter_pass (Some m # ys) = m # filter_pass ys"

definition transformation :: "equip list \<Rightarrow> error + entry list" where
  "transformation eq =
     (case map_pass eq of Inl e \<Rightarrow> Inl e | Inr ys \<Rightarrow> Inr (filter_pass ys))"

section \<open>State retrieval\<close>

text \<open>
  The objects the handler walks through. A field that is absent, \<^verbatim>\<open>undefined\<close> or
  \<^verbatim>\<open>null\<close> on the JavaScript object is \<open>None\<close>. \<open>getState\<close> is the outcome of the call
  \<^verbatim>\<open>store.getState()\<close>: \<open>None\<close> when the property is not callable or the call throws,
  otherwise the state object it returns.
\<close>

record store_obj =
  getState :: "app_state option"

record props =
  store :: "store_obj option"

text \<open>
  A node of the rendering tree, with the two fields the handler reads. The \<^verbatim>\<open>child\<close>
  chain of a rendering tree is finite, so a node is a value of a datatype.
\<close>

datatype fiber = Fiber (pendingProps: "props option") (child: "fiber option")

record internal_root =
  current :: "fiber option"

record root_container =
  internalRoot :: "internal_root option"

record element =
  reactRootContainer :: "root_container option"

text \<open>
  \<^verbatim>\<open>reactRoot._reactRootContainer._internalRoot.current\<close>, where \<open>reactRoot\<close> is the result of
  \<^verbatim>\<open>document.getElementById('app')\<close>: a property read on \<^verbatim>\<open>null\<close> or \<^verbatim>\<open>undefined\<close> throws;
  the last read does not, whatever \<^verbatim>\<open>current\<close> holds.
\<close>

definition lookup_internal_root :: "element option \<Rightarrow> error + fiber option" where
  "lookup_internal_root reactRoot =
     (case reactRoot of
        None \<Rightarrow> Inl RootLookupError
      | Some el \<Rightarrow>
          (case reactRootContainer el of
             None \<Rightarrow> Inl RootLookupError
           | Some c \<Rightarrow>
               (case internalRoot c of
                  None \<Rightarrow> Inl RootLookupError
                | Some r \<Rightarrow> Inr (current r))))"

text \<open>\<^verbatim>\<open>base.pendingProps.store.getState()\<close>.\<close>

definition read_state :: "fiber \<Rightarrow> error + app_state" where
  "read_state base =
     (case pendingProps base of
        None \<Rightarrow> Inl GetStateError
      | Some pp \<Rightarrow>
          (case store pp of
             None \<Rightarrow> Inl GetStateError
           | Some st \<Rightarrow>
               (case getState st of
                  None \<Rightarrow> Inl GetStateError
                | Some s \<Rightarrow> Inr s)))"

text \<open>
  The body of the loop up to \<^verbatim>\<open>base = base.child\<close>: the \<^verbatim>\<open>try\<close> block pushes the state it
  read, the empty \<^verbatim>\<open>catch\<close> block leaves \<open>appStates\<close> as it was.
\<close>

definition try_push :: "fiber \<Rightarrow> app_state list \<Rightarrow> app_state list" where
  "try_push base appStates =
     (case read_state base of
        Inl e \<Rightarrow> appStates
      | Inr s \<Rightarrow> appStates @ [s])"

text \<open>\<^verbatim>\<open>while (base) { ...; base = base.child; }\<close>\<close>

fun walk :: "fiber option \<Rightarrow> app_state list \<Rightarrow> app_state list" where
  "walk None appStates = appStates"
| "walk (Some (Fiber pp c)) appStates = walk c (try_push (Fiber pp c) appStates)"

text \<open>
  The first \<^verbatim>\<open>try\<close>/\<^verbatim>\<open>catch\<close> and the loop: the messages written to the console and the
  collected states.
\<close>

definition root_message :: string where
  "root_message = ''Could not get internal root information from reactRoot element''"

definition retrieve :: "element option \<Rightarrow> string list \<times> app_state list" where
  "retrieve reactRoot =
     (case lookup_internal_root reactRoot of
        Inl e \<Rightarrow> ([root_message], walk None [])
      | Inr base \<Rightarrow> ([], walk base []))"

section \<open>Activation\<close>

text \<open>\<^verbatim>\<open>let $r = appStates[0].optimizer\<close>: \<^verbatim>\<open>appStates[0]\<close> of an empty array is \<^verbatim>\<open>undefined\<close>.\<close>

definition first_optimizer :: "app_state list \<Rightarrow> error + optimizer_state option" where
  "first_optimizer appStates =
     (case appStates of
        [] \<Rightarrow> Inl ReadOptimizerOfUndefined
      | s # rest \<Rightarrow> Inr (optimizer s))"

text \<open>\<^verbatim>\<open>$r.savedequip.map\<close>: the two property reads before the callback runs.\<close>

definition read_savedequip :: "optimizer_state option \<Rightarrow> error + equip list" where
  "read_savedequip r =
     (case r of
        None \<Rightarrow> Inl ReadSavedequipOfUndefined
      | Some opt \<Rightarrow>
          (case savedequip opt of
             None \<Rightarrow> Inl ReadMapOfUndefined
           | Some eq \<Rightarrow> Inr eq))"

text \<open>Everything between the loop and \<^verbatim>\<open>JSON.stringify\<close>.\<close>

definition payload_of :: "app_state list \<Rightarrow> error + entry list" where
  "payload_of appStates =
     (case first_optimizer appStates of
        Inl e \<Rightarrow> Inl e
      | Inr r \<Rightarrow>
          (case read_savedequip r of
             Inl e \<Rightarrow> Inl e
           | Inr eq \<Rightarrow> transformation eq))"

text \<open>
  The arguments of \<^verbatim>\<open>fetch\<close>; \<open>http_method\<close> is the option \<^verbatim>\<open>method\<close>.
\<close>

record request =
  url :: string
  http_method :: string
  headers :: "(string \<times> string) list"
  body :: string

text \<open>
  What one click does before it returns: the console messages, the calls of \<^verbatim>\<open>fetch\<close>, and
  the exception that left the handler, if any. \<^verbatim>\<open>JSON.stringify\<close> is a built-in of the
  browser; the handler is modelled for any serialiser.
\<close>

record activation =
  console :: "string list"
  fetched :: "request list"
  thrown :: "error option"

definition click :: "(entry list \<Rightarrow> string) \<Rightarrow> element option \<Rightarrow> activation" where
  "click JSON_stringify reactRoot =
     (case retrieve reactRoot of
        (logs, appStates) \<Rightarrow>
          (case payload_of appStates of
             Inl e \<Rightarrow> \<lparr>console = logs, fetched = [], thrown = Some e\<rparr>
           | Inr payload \<Rightarrow>
               \<lparr>console = logs,
                fetched = [\<lparr>url = ''http://localhost:3000'', http_method = ''POST'',
                            headers = [(''Content-Type'', ''application/json'')],
                            body = JSON_stringify payload\<rparr>],
                thrown = None\<rparr>))"

text \<open>
  \<^verbatim>\<open>.finally(() => console.log("Done"))\<close>: what is written to the console when the promise
  of one request settles. The callback takes no argument.
\<close>

datatype settlement = Fulfilled string | Rejected string

definition on_settled :: "settlement \<Rightarrow> string list" where
  "on_settled r = [''Done'']"

section \<open>Control lifecycle of the observer variant\<close>

text \<open>
  The part of the page that \<^verbatim>\<open>src/unnamed/part_000\<close> changes. An AbortController is
  identified by the number of controllers created before it. Every button carries one click
  listener, registered with the signal of the controller created in the same call, so a
  button and its listener are identified by that controller.
  \<^item> \<open>controller\<close>: the variable \<^verbatim>\<open>controller\<close> of the script, \<open>None\<close> while \<^verbatim>\<open>undefined\<close>;
  \<^item> \<open>created\<close>: how many controllers exist;
  \<^item> \<open>aborted\<close>: the controllers whose \<^verbatim>\<open>abort()\<close> was called;
  \<^item> \<open>listeners\<close>: the listeners registered by \<^verbatim>\<open>addEventListener\<close>, oldest first;
  \<^item> \<open>appended\<close>: the buttons handed to \<^verbatim>\<open>appendChild\<close>, oldest first;
  \<^item> \<open>observing\<close>: whether \<^verbatim>\<open>observer.observe\<close> has been reached.
\<close>

record page =
  controller :: "nat option"
  created :: nat
  aborted :: "nat set"
  listeners :: "nat list"
  appended :: "nat list"
  observing :: bool

definition initial_page :: page where
  "initial_page =
     \<lparr>controller = None, created = 0, aborted = {}, listeners = [], appended = [],
      observing = False\<rparr>"

text \<open>
  \<^verbatim>\<open>addSyncButton\<close>. \<open>section\<close> tells whether the document has an element of class
  \<^verbatim>\<open>button-section\<close>; without one \<^verbatim>\<open>buttons.appendChild\<close> throws, after the controller was
  replaced and the listener registered. The previous value of \<^verbatim>\<open>controller\<close> is overwritten
  and nothing is called on it.
\<close>

definition addSyncButton :: "bool \<Rightarrow> page \<Rightarrow> page \<times> error option" where
  "addSyncButton section p =
     (let c = created p;
          p' = p\<lparr>controller := Some c, created := Suc c, listeners := listeners p @ [c]\<rparr>
      in if section then (p'\<lparr>appended := appended p' @ [c]\<rparr>, None)
         else (p', Some ReadAppendChildOfUndefined))"

text \<open>\<^verbatim>\<open>controller.abort()\<close>\<close>

definition abort :: "nat \<Rightarrow> page \<Rightarrow> page" where
  "abort c p = p\<lparr>aborted := insert c (aborted p)\<rparr>"

text \<open>
  A MutationRecord, with what the callback reads of it: \<^verbatim>\<open>type\<close>, \<^verbatim>\<open>attributeName\<close> and the
  class list of \<^verbatim>\<open>target\<close> as it is when the callback runs.
\<close>

record mutation =
  mtype :: string
  attributeName :: "string option"
  target_classList :: "string list"

text \<open>The body of the \<^verbatim>\<open>for\<close> loop of the observer's callback.\<close>

definition on_mutation :: "bool \<Rightarrow> mutation \<Rightarrow> page \<Rightarrow> page \<times> error option" where
  "on_mutation section m p =
     (if mtype m = ''attributes'' \<and> attributeName m = Some ''class'' then
        (if ''active'' \<in> set (target_classList m) then addSyncButton section p
         else (case controller p of
                 Some c \<Rightarrow> (abort c p, None)
               | None \<Rightarrow> (p, None)))
      else (p, None))"

text \<open>The callback: the loop over \<^verbatim>\<open>mutationsList\<close>, left by the first exception.\<close>

fun observer_callback :: "bool \<Rightarrow> mutation list \<Rightarrow> page \<Rightarrow> page \<times> error option" where
  "observer_callback section [] p = (p, None)"
| "observer_callback section (m # ms) p =
     (case on_mutation section m p of
        (p', Some e) \<Rightarrow> (p', Some e)
      | (p', None) \<Rightarrow> observer_callback section ms p')"

text \<open>
  \<^verbatim>\<open>setupSyncButton\<close>, run once on the \<^verbatim>\<open>load\<close> event. \<open>gearButton\<close> tells whether
  \<^verbatim>\<open>document.querySelector\<close> found the navigation link; \<^verbatim>\<open>observer.observe(null)\<close> throws a
  TypeError, which is not one of the property reads of \<open>error\<close> and is recorded only as the
  observer not observing.
\<close>

definition setupSyncButton :: "bool \<Rightarrow> bool \<Rightarrow> page \<Rightarrow> page \<times> error option" where
  "setupSyncButton section gearButton p =
     (case addSyncButton section p of
        (p', Some e) \<Rightarrow> (p', Some e)
      | (p', None) \<Rightarrow> (p'\<lparr>observing := gearButton\<rparr>, None))"

text \<open>
  What the browser delivers to the script: the \<^verbatim>\<open>load\<close> event, and batches of mutation
  records, which reach the callback only while the observer observes. An exception leaves
  the state as it was when it was raised.
\<close>

datatype event = Load bool bool | Mutations bool "mutation list"

fun step :: "page \<Rightarrow> event \<Rightarrow> page" where
  "step p (Load section gearButton) = fst (setupSyncButton section gearButton p)"
| "step p (Mutations section ms) =
     (if observing p then fst (observer_callback section ms p) else p)"

definition run :: "event list \<Rightarrow> page" where
  "run es = foldl step initial_page es"

text \<open>
  The click listeners that still fire: \<^verbatim>\<open>addEventListener\<close> with a signal removes the
  listener when that signal aborts, and nothing else in the script removes one.
\<close>

definition live_listeners :: "page \<Rightarrow> nat list" where
  "live_listeners p = filter (\<lambda>c. c \<notin> aborted p) (listeners p)"

section \<open>Notions used in the statements\<close>

text \<open>What an optional slot contributes to the filtered value: nothing when it is absent.\<close>

definition present :: "int list option \<Rightarrow> int list" where
  "present s = (case s of None \<Rightarrow> [] | Some b \<Rightarrow> b)"

text \<open>
  The value the specification gives to a named record: the six slot collections
  concatenated in the order accessory, head, boots, armor, pants, weapon, keeping the
  identifiers below 10000.
\<close>

definition kept_slots ::
  "int list \<Rightarrow> int list \<Rightarrow> int list \<Rightarrow> int list \<Rightarrow> int list \<Rightarrow> int list \<Rightarrow> jsval list" where
  "kept_slots ac h b ar p w = map Num (filter (\<lambda>v. v < 10000) (ac @ h @ b @ ar @ p @ w))"

text \<open>The nodes reached from \<open>base\<close> through \<^verbatim>\<open>child\<close>, parent first.\<close>

fun child_chain :: "fiber option \<Rightarrow> fiber list" where
  "child_chain None = []"
| "child_chain (Some (Fiber pp c)) = Fiber pp c # child_chain c"

text \<open>The states of the nodes whose accessor can be read, in the order of the nodes.\<close>

definition readable_states :: "fiber list \<Rightarrow> app_state list" where
  "readable_states ns =
     List.map_filter (\<lambda>n. case read_state n of Inl e \<Rightarrow> None | Inr s \<Rightarrow> Some s) ns"

text \<open>
  Pages for the concrete cases: an app root whose internal root points at \<open>base\<close>; a node
  whose props hold a store returning \<open>s\<close>; a state whose optimizer holds \<open>eq\<close> as
  \<^verbatim>\<open>savedequip\<close>.
\<close>

definition host_page :: "fiber option \<Rightarrow> element option" where
  "host_page base =
     Some \<lparr>reactRootContainer = Some \<lparr>internalRoot = Some \<lparr>current = base\<rparr>\<rparr>\<rparr>"

definition provider :: "app_state \<Rightarrow> fiber option \<Rightarrow> fiber" where
  "provider s c = Fiber (Some \<lparr>store = Some \<lparr>getState = Some s\<rparr>\<rparr>) c"

definition saved_state :: "equip list \<Rightarrow> app_state" where
  "saved_state eq = \<lparr>optimizer = Some \<lparr>savedequip = Some eq\<rparr>\<rparr>"

section \<open>Lemmas on the transformation\<close>


lemma filter_concat_js:
  "filter lt_10000 (concat_js a s) = filter lt_10000 a @ map Num (filter (\<lambda>v. v < 10000) (present s))"
  by (cases s) (simp_all add: present_def filter_map comp_def)

lemma filter_map_Num:
  "filter lt_10000 (map Num b) = map Num (filter (\<lambda>v. v < 10000) b)"
  by (simp add: filter_map comp_def)

lemma slot_values_accessory:
  assumes "accessory x = Some a"
  shows "slot_values x = Inr (map Num (filter (\<lambda>v. v < 10000)
           (a @ present (head x) @ present (boots x) @ present (armor x) @ present (pants x) @ present (weapon x))))"
  using assms by (simp add: slot_values_def concat_slots_def filter_concat_js filter_map_Num)

lemma slot_values_no_accessory:
  "accessory x = None \<Longrightarrow> slot_values x = Inl ReadConcatOfUndefined"
  by (simp add: slot_values_def concat_slots_def)

lemma filter_pass_append: "filter_pass (ys @ zs) = filter_pass ys @ filter_pass zs"
  by (induction ys rule: filter_pass.induct) simp_all

lemma filter_pass_Some: "map Some (filter_pass ys) = filter (\<lambda>y. y \<noteq> None) ys"
  by (induction ys rule: filter_pass.induct) simp_all

lemma map_pass_Inr:
  "map_pass eq = Inr ys \<Longrightarrow> length ys = length eq \<and> (\<forall>i<length eq. callback (eq ! i) = Inr (ys ! i))"
proof (induction eq arbitrary: ys)
  case Nil
  then show ?case by simp
next
  case (Cons x xs)
  then obtain y ys' where y: "callback x = Inr y" and ys': "map_pass xs = Inr ys'" and ys: "ys = y # ys'"
    by (auto split: sum.splits)
  from Cons.IH[OF ys'] have ih: "length ys' = length xs" "\<And>i. i < length xs \<Longrightarrow> callback (xs ! i) = Inr (ys' ! i)"
    by simp_all
  show ?case
  proof (intro conjI allI impI)
    show "length ys = length (x # xs)" using ih ys by simp
  next
    fix i assume "i < length (x # xs)"
    then show "callback ((x # xs) ! i) = Inr (ys ! i)"
      using y ih ys by (cases i) simp_all
  qed
qed

lemma map_pass_Inl:
  "map_pass eq = Inl e \<Longrightarrow> \<exists>x\<in>set eq. callback x = Inl e"
  by (induction eq) (auto split: sum.splits)

lemma map_pass_total:
  "(\<forall>x\<in>set eq. \<exists>y. callback x = Inr y) \<Longrightarrow> \<exists>ys. map_pass eq = Inr ys"
  by (induction eq) (auto split: sum.splits)

lemma callback_Inl:
  "callback x = Inl e \<longleftrightarrow> e = ReadConcatOfUndefined \<and> name x \<noteq> None \<and> accessory x = None"
  by (auto simp: callback_def slot_values_def concat_slots_def split: option.splits sum.splits)

lemma callback_None: "callback x = Inr None \<longleftrightarrow> name x = None"
  by (auto simp: callback_def split: option.splits sum.splits)

lemma callback_named:
  assumes "name x = Some n" "accessory x = Some a"
  shows "callback x = Inr (Some [n \<mapsto> kept_slots a (present (head x)) (present (boots x))
            (present (armor x)) (present (pants x)) (present (weapon x))])"
  using assms by (simp add: callback_def slot_values_accessory kept_slots_def)

lemma transformation_member:
  assumes "transformation eq = Inr out" "x \<in> set eq" "callback x = Inr (Some m)"
  shows "m \<in> set out"
proof -
  from assms(1) obtain ys where ys: "map_pass eq = Inr ys" and out: "out = filter_pass ys"
    by (auto simp: transformation_def split: sum.splits)
  from assms(2) obtain i where i: "i < length eq" "eq ! i = x"
    by (auto simp: in_set_conv_nth)
  with map_pass_Inr[OF ys] assms(3) have "ys ! i = Some m" "i < length ys" by auto
  then have "Some m \<in> set (filter (\<lambda>y. y \<noteq> None) ys)" by (auto simp: in_set_conv_nth)
  then have "Some m \<in> set (map Some (filter_pass ys))" by (simp only: filter_pass_Some)
  then show ?thesis using out by auto
qed

lemma length_filter_pointwise:
  assumes "length ys = length xs" "\<forall>i<length xs. P (ys ! i) = Q (xs ! i)"
  shows "length (filter P ys) = length (filter Q xs)"
  using assms
proof (induction ys arbitrary: xs)
  case Nil
  then show ?case by simp
next
  case (Cons y ys)
  then obtain x xs' where xs: "xs = x # xs'" by (cases xs) auto
  with Cons.prems have "P y = Q x" "length ys = length xs'" "\<forall>i<length xs'. P (ys ! i) = Q (xs' ! i)"
    by (auto simp: nth_Cons split: nat.splits)
  with Cons.IH[of xs'] xs show ?case by simp
qed

lemma filter_pass_take_less:
  assumes "i < j" "j \<le> length ys" "ys ! i = Some m"
  shows "length (filter_pass (take i ys)) < length (filter_pass (take j ys))"
proof -
  have "i < length (take j ys)" using assms(1,2) by simp
  then have "take j ys = take i (take j ys) @ take j ys ! i # drop (Suc i) (take j ys)"
    by (rule id_take_nth_drop)
  also have "take i (take j ys) = take i ys" using assms(1) by (simp add: min_def)
  also have "take j ys ! i = Some m" using assms(1,3) by simp
  finally have "filter_pass (take j ys) =
      filter_pass (take i ys @ Some m # drop (Suc i) (take j ys))" by simp
  then have "filter_pass (take j ys) =
      filter_pass (take i ys) @ m # filter_pass (drop (Suc i) (take j ys))"
    by (simp only: filter_pass_append filter_pass.simps)
  then show ?thesis by simp
qed

lemma filter_pass_nth:
  assumes "i < length ys" "ys ! i = Some m"
  shows "length (filter_pass (take i ys)) < length (filter_pass ys) \<and>
         filter_pass ys ! length (filter_pass (take i ys)) = m"
proof -
  have "ys = take i ys @ ys ! i # drop (Suc i) ys"
    using assms(1) by (rule id_take_nth_drop)
  then have "filter_pass ys = filter_pass (take i ys @ Some m # drop (Suc i) ys)"
    using assms(2) by simp
  then have "filter_pass ys = filter_pass (take i ys) @ m # filter_pass (drop (Suc i) ys)"
    by (simp only: filter_pass_append filter_pass.simps)
  then show ?thesis by (simp add: nth_append)
qed

lemma count_list_filter:
  "count_list (filter P xs) y = (if P y then count_list xs y else 0)"
  by (induction xs) simp_all

lemma count_list_map_Num: "count_list (map Num xs) (Num v) = count_list xs v"
  by (induction xs) simp_all

lemma transformation_named_callback:
  assumes "transformation eq = Inr out" "x \<in> set eq" "name x = Some n"
  shows "\<exists>m. callback x = Inr (Some m) \<and> m \<in> set out"
proof -
  from assms(1) obtain ys where ys: "map_pass eq = Inr ys"
    by (auto simp: transformation_def split: sum.splits)
  from assms(2) obtain i where i: "i < length eq" "eq ! i = x"
    by (auto simp: in_set_conv_nth)
  with map_pass_Inr[OF ys] have cb: "callback x = Inr (ys ! i)" by auto
  have "ys ! i \<noteq> None"
    using cb callback_None[of x] assms(3) by auto
  then obtain m where "ys ! i = Some m" by (cases "ys ! i") auto
  with cb have c: "callback x = Inr (Some m)" by simp
  from transformation_member[OF assms(1,2) c] c show ?thesis by blast
qed

section \<open>Lemmas on the retrieval and the activation\<close>

lemma lookup_host_page [simp]: "lookup_internal_root (host_page base) = Inr base"
  by (simp add: host_page_def lookup_internal_root_def)

lemma read_state_provider [simp]: "read_state (provider s c) = Inr s"
  by (simp add: provider_def read_state_def)

lemma walk_provider [simp]: "walk (Some (provider s c)) acc = walk c (acc @ [s])"
  using read_state_provider[of s c] by (simp add: provider_def try_push_def)

lemma try_push_no_props [simp]: "try_push (Fiber None c) acc = acc"
  by (simp add: try_push_def read_state_def)

lemma readable_states_Cons:
  "readable_states (n # ns) =
     (case read_state n of Inl e \<Rightarrow> readable_states ns | Inr s \<Rightarrow> s # readable_states ns)"
  by (simp add: readable_states_def map_filter_simps split: sum.splits)

lemma readable_states_Nil [simp]: "readable_states [] = []"
  by (simp add: readable_states_def map_filter_simps)

lemma walk_chain: "walk base acc = acc @ readable_states (child_chain base)"
proof (induction base acc rule: walk.induct)
  case (1 appStates)
  then show ?case by simp
next
  case (2 pp c appStates)
  then show ?case
    by (simp add: readable_states_Cons try_push_def split: sum.splits)
qed

lemma readable_states_empty:
  "(\<forall>n\<in>set ns. \<exists>e. read_state n = Inl e) \<Longrightarrow> readable_states ns = []"
  by (induction ns) (auto simp: readable_states_Cons)

lemma retrieve_snd:
  "snd (retrieve reactRoot) =
     (case lookup_internal_root reactRoot of Inl e \<Rightarrow> [] | Inr base \<Rightarrow> readable_states (child_chain base))"
  by (simp add: retrieve_def walk_chain split: sum.splits)

lemma click_unfold:
  "click J reactRoot =
     (case payload_of (snd (retrieve reactRoot)) of
        Inl e \<Rightarrow> \<lparr>console = fst (retrieve reactRoot), fetched = [], thrown = Some e\<rparr>
      | Inr payload \<Rightarrow>
          \<lparr>console = fst (retrieve reactRoot),
           fetched = [\<lparr>url = ''http://localhost:3000'', http_method = ''POST'',
                       headers = [(''Content-Type'', ''application/json'')],
                       body = J payload\<rparr>],
           thrown = None\<rparr>)"
  by (cases "retrieve reactRoot") (simp add: click_def split: sum.splits)

section \<open>Lemmas on the control lifecycle\<close>

text \<open>
  \<^verbatim>\<open>addSyncButton\<close> aborts nothing: it registers one more listener and replaces the
  controller, with or without a container to append the button to.
\<close>

lemma addSyncButton_aborts_nothing:
  "aborted (fst (addSyncButton section p)) = aborted p \<and>
   listeners (fst (addSyncButton section p)) = listeners p @ [created p] \<and>
   controller (fst (addSyncButton section p)) = Some (created p)"
  by (simp add: addSyncButton_def Let_def)

text \<open>Only the controller held by the variable is aborted when the class is lost.\<close>

lemma on_mutation_aborts_current:
  "aborted (fst (on_mutation section m p)) \<subseteq> aborted p \<union> set_option (controller p)"
  by (auto simp: on_mutation_def addSyncButton_def abort_def Let_def split: option.splits)

section \<open>The claims on the transformation\<close>



text \<open>
  C3. A record without a name leaves no entry in the output: the mapping pass gives the
  placeholder \<^verbatim>\<open>undefined\<close> exactly at the positions of the nameless records, the filter
  pass keeps exactly the other elements, so the output has as many entries as the input has
  named records. For \<^verbatim>\<open>[{weapon:[5]}]\<close> the output is empty.
\<close>

theorem nameless_records_dropped:
  "(name x = None \<longrightarrow> callback x = Inr None) \<and>
   (transformation eq = Inr out \<longrightarrow>
      (\<exists>ys. map_pass eq = Inr ys \<and> length ys = length eq \<and>
            (\<forall>i<length eq. (ys ! i = None) = (name (eq ! i) = None)) \<and>
            map Some out = filter (\<lambda>y. y \<noteq> None) ys \<and>
            length out = length (filter (\<lambda>r. name r \<noteq> None) eq))) \<and>
   transformation [\<lparr>name = None, accessory = None, head = None, boots = None,
      armor = None, pants = None, weapon = Some [5]\<rparr>] = Inr []"
proof (intro conjI impI)
  show "callback x = Inr None" if "name x = None"
    using that by (simp add: callback_None)
next
  assume "transformation eq = Inr out"
  then obtain ys where ys: "map_pass eq = Inr ys" and out: "out = filter_pass ys"
    by (auto simp: transformation_def split: sum.splits)
  from map_pass_Inr[OF ys] have len: "length ys = length eq"
    and cb: "\<And>i. i < length eq \<Longrightarrow> callback (eq ! i) = Inr (ys ! i)" by simp_all
  have pt: "\<forall>i<length eq. (ys ! i = None) = (name (eq ! i) = None)"
  proof (intro allI impI)
    fix i assume "i < length eq"
    from cb[OF this] show "(ys ! i = None) = (name (eq ! i) = None)"
      using callback_None[of "eq ! i"] by auto
  qed
  have some: "map Some out = filter (\<lambda>y. y \<noteq> None) ys"
    using out by (simp add: filter_pass_Some)
  have "length out = length (map Some out)" by simp
  also have "\<dots> = length (filter (\<lambda>y. y \<noteq> None) ys)" by (simp only: some)
  also have "\<dots> = length (filter (\<lambda>r. name r \<noteq> None) eq)"
    by (rule length_filter_pointwise[OF len]) (use pt in simp)
  finally have "length out = length (filter (\<lambda>r. name r \<noteq> None) eq)" .
  with ys len pt some
  show "\<exists>ys. map_pass eq = Inr ys \<and> length ys = length eq \<and>
            (\<forall>i<length eq. (ys ! i = None) = (name (eq ! i) = None)) \<and>
            map Some out = filter (\<lambda>y. y \<noteq> None) ys \<and>
            length out = length (filter (\<lambda>r. name r \<noteq> None) eq)"
    by blast
next
  show "transformation [\<lparr>name = None, accessory = None, head = None, boots = None,
      armor = None, pants = None, weapon = Some [5]\<rparr>] = Inr []"
    by (simp add: transformation_def callback_def)
qed

theorem nameless_records_dropped_witness:
  "name \<lparr>name = None, accessory = None, head = None, boots = None,
      armor = None, pants = None, weapon = Some [5]\<rparr> = None \<and>
   callback \<lparr>name = None, accessory = None, head = None, boots = None,
      armor = None, pants = None, weapon = Some [5]\<rparr> = Inr None \<and>
   transformation [\<lparr>name = None, accessory = None, head = None, boots = None,
      armor = None, pants = None, weapon = Some [5]\<rparr>] = Inr [] \<and>
   (\<exists>ys. map_pass [\<lparr>name = None, accessory = None, head = None, boots = None,
      armor = None, pants = None, weapon = Some [5]\<rparr>] = Inr ys \<and> length ys = 1 \<and>
      ys ! 0 = None \<and> filter (\<lambda>y. y \<noteq> None) ys = [])"
  using nameless_records_dropped [of
      "\<lparr>name = None, accessory = None, head = None, boots = None,
        armor = None, pants = None, weapon = Some [5]\<rparr>"
      "[\<lparr>name = None, accessory = None, head = None, boots = None,
        armor = None, pants = None, weapon = Some [5]\<rparr>]" "[]"]
  by auto

text \<open>
  C4. The threshold of the slot filter is exclusive at 10000, in the output: when the
  transformation returns, a named record of the input has its one-key object in the output,
  and for every number \<open>v\<close> the value under the record's name holds \<open>v\<close> as often as the
  record's slots do when \<open>v < 10000\<close> and not at all otherwise. So 10000 is never in the
  value, a 9999 of the slots is, every negative slot value is, and every element of the
  value satisfies the predicate, which holds of a number exactly below 10000. An absent
  slot other than \<^verbatim>\<open>accessory\<close> counts as empty.
\<close>

theorem threshold_exclusive:
  assumes "transformation eq = Inr out" and "x \<in> set eq" and "name x = Some n"
  shows "\<exists>m a vs. callback x = Inr (Some m) \<and> m \<in> set out \<and> accessory x = Some a \<and>
           m n = Some vs \<and>
           (\<forall>v. count_list vs (Num v) =
              (if v < 10000
               then count_list (a @ present (head x) @ present (boots x) @ present (armor x) @
                      present (pants x) @ present (weapon x)) v
               else 0)) \<and>
           Num 10000 \<notin> set vs \<and>
           (\<forall>v\<in>set (a @ present (head x) @ present (boots x) @ present (armor x) @
                      present (pants x) @ present (weapon x)).
              (Num v \<in> set vs \<longleftrightarrow> v < 10000) \<and>
              (v = 9999 \<longrightarrow> Num v \<in> set vs) \<and>
              (v < 0 \<longrightarrow> Num v \<in> set vs)) \<and>
           (\<forall>u\<in>set vs. lt_10000 u) \<and>
           (\<forall>v. lt_10000 (Num v) \<longleftrightarrow> v < 10000)"
proof -
  from transformation_named_callback[OF assms] obtain m
    where m: "callback x = Inr (Some m)" "m \<in> set out" by blast
  have "accessory x \<noteq> None"
    using callback_Inl[of x ReadConcatOfUndefined] m(1) assms(3) by auto
  then obtain a where a: "accessory x = Some a" by auto
  let ?all = "a @ present (head x) @ present (boots x) @ present (armor x) @
                      present (pants x) @ present (weapon x)"
  let ?vs = "map Num (filter (\<lambda>v. v < 10000) ?all)"
  from m(1) assms(3) a
  have mm: "m = [n \<mapsto> ?vs]" by (simp add: callback_def slot_values_accessory)
  then have mn: "m n = Some ?vs" by simp
  have cnt: "\<forall>v. count_list ?vs (Num v) = (if v < 10000 then count_list ?all v else 0)"
    by (simp only: count_list_map_Num count_list_filter) simp
  have ex: "Num 10000 \<notin> set ?vs" by auto
  have mem: "\<forall>v\<in>set ?all. (Num v \<in> set ?vs \<longleftrightarrow> v < 10000) \<and>
              (v = 9999 \<longrightarrow> Num v \<in> set ?vs) \<and> (v < 0 \<longrightarrow> Num v \<in> set ?vs)"
    by auto
  have lt: "\<forall>u\<in>set ?vs. lt_10000 u" by auto
  have pr: "\<forall>v. lt_10000 (Num v) \<longleftrightarrow> v < 10000" by simp
  from m a mn cnt ex mem lt pr show ?thesis by blast
qed


theorem threshold_exclusive_witness:
  "transformation
     [\<lparr>name = Some ''A'', accessory = Some [10000, 9999], head = Some [-3],
        boots = Some [], armor = Some [], pants = Some [], weapon = Some [20000]\<rparr>]
     = Inr [[''A'' \<mapsto> [Num 9999, Num (-3)]]] \<and>
   (\<exists>m vs. m \<in> set [[''A'' \<mapsto> [Num 9999, Num (-3)]]] \<and> m ''A'' = Some vs \<and>
      Num 10000 \<notin> set vs \<and> Num 20000 \<notin> set vs \<and> Num 9999 \<in> set vs \<and> Num (-3) \<in> set vs \<and>
      count_list vs (Num 9999) = 1 \<and> count_list vs (Num 10000) = 0)"
proof -
  let ?x = "\<lparr>name = Some ''A'', accessory = Some [10000, 9999], head = Some [-3],
        boots = Some [], armor = Some [], pants = Some [], weapon = Some [20000]\<rparr>"
  let ?out = "[[''A'' \<mapsto> [Num 9999, Num (-3)]]]"
  have tr: "transformation [?x] = Inr ?out"
    by (simp add: transformation_def callback_def slot_values_def concat_slots_def)
  have x: "?x \<in> set [?x]" by simp
  have n: "name ?x = Some ''A''" by simp
  from threshold_exclusive [OF tr x n] obtain m a vs where
    m: "m \<in> set ?out" and a: "accessory ?x = Some a" and vs: "m ''A'' = Some vs"
    and cnt: "\<forall>v. count_list vs (Num v) =
              (if v < 10000
               then count_list (a @ present (head ?x) @ present (boots ?x) @ present (armor ?x) @
                      present (pants ?x) @ present (weapon ?x)) v
               else 0)"
    and ex: "Num 10000 \<notin> set vs"
    and mem: "\<forall>v\<in>set (a @ present (head ?x) @ present (boots ?x) @ present (armor ?x) @
                      present (pants ?x) @ present (weapon ?x)).
              (Num v \<in> set vs \<longleftrightarrow> v < 10000) \<and>
              (v = 9999 \<longrightarrow> Num v \<in> set vs) \<and>
              (v < 0 \<longrightarrow> Num v \<in> set vs)"
    by blast
  from a have a': "a = [10000, 9999]" by simp
  have all: "a @ present (head ?x) @ present (boots ?x) @ present (armor ?x) @
               present (pants ?x) @ present (weapon ?x) = [10000, 9999, -3, 20000]"
    by (simp add: a' present_def)
  from mem have mem': "\<forall>v\<in>set [10000, 9999, -3, 20000 :: int].
              (Num v \<in> set vs \<longleftrightarrow> v < 10000) \<and>
              (v = 9999 \<longrightarrow> Num v \<in> set vs) \<and>
              (v < 0 \<longrightarrow> Num v \<in> set vs)"
    unfolding all .
  from mem' have k1: "Num 9999 \<in> set vs" by simp
  from mem' have k2: "Num (-3) \<in> set vs" by simp
  from mem' have k3: "Num 20000 \<notin> set vs" by simp
  from cnt have "count_list vs (Num 9999) =
      (if (9999::int) < 10000 then count_list [10000, 9999, -3, 20000] (9999::int) else 0)"
    unfolding all by blast
  then have c1: "count_list vs (Num 9999) = 1" by simp
  from cnt have "count_list vs (Num 10000) =
      (if (10000::int) < 10000 then count_list [10000, 9999, -3, 20000] (10000::int) else 0)"
    unfolding all by blast
  then have c2: "count_list vs (Num 10000) = 0" by simp
  from tr m vs ex k1 k2 k3 c1 c2 show ?thesis by blast
qed

text \<open>
  C9. The output keeps the order of the input: when the transformation returns, two named
  records at positions \<open>i < j\<close> of \<^verbatim>\<open>savedequip\<close> have their objects at positions
  \<open>i' < j'\<close> of the output; and every named record has its object in the output, whose
  value under the record's name is a subsequence of the record's concatenated slots, so the
  kept identifiers stand in the same relative order as there.
\<close>

theorem order_preserved:
  assumes "transformation eq = Inr out"
  shows "(\<forall>i j. i < j \<and> j < length eq \<and> name (eq ! i) \<noteq> None \<and> name (eq ! j) \<noteq> None \<longrightarrow>
            (\<exists>i' j'. i' < j' \<and> j' < length out \<and>
               callback (eq ! i) = Inr (Some (out ! i')) \<and>
               callback (eq ! j) = Inr (Some (out ! j')))) \<and>
         (\<forall>x\<in>set eq. \<forall>n. name x = Some n \<longrightarrow>
            (\<exists>m\<in>set out. \<exists>cs vs. callback x = Inr (Some m) \<and> concat_slots x = Inr cs \<and>
               m n = Some vs \<and> subseq vs cs))"
proof (intro conjI allI impI ballI)
  fix i j
  assume ij: "i < j \<and> j < length eq \<and> name (eq ! i) \<noteq> None \<and> name (eq ! j) \<noteq> None"
  from assms obtain ys where ys: "map_pass eq = Inr ys" and out: "out = filter_pass ys"
    by (auto simp: transformation_def split: sum.splits)
  from map_pass_Inr[OF ys] have len: "length ys = length eq"
    and cb: "\<And>k. k < length eq \<Longrightarrow> callback (eq ! k) = Inr (ys ! k)" by simp_all
  from ij have i: "i < length eq" and j: "j < length eq" by simp_all
  from cb[OF i] ij obtain mi where mi: "ys ! i = Some mi"
    using callback_None[of "eq ! i"] by (cases "ys ! i") auto
  from cb[OF j] ij obtain mj where mj: "ys ! j = Some mj"
    using callback_None[of "eq ! j"] by (cases "ys ! j") auto
  let ?i' = "length (filter_pass (take i ys))"
  let ?j' = "length (filter_pass (take j ys))"
  have lt: "?i' < ?j'"
    using filter_pass_take_less[of i j ys mi] ij len mi by simp
  have oj: "?j' < length out" "out ! ?j' = mj"
    using filter_pass_nth[of j ys mj] j len mj out by simp_all
  have oi: "out ! ?i' = mi"
    using filter_pass_nth[of i ys mi] i len mi out by simp
  have "?i' < ?j' \<and> ?j' < length out \<and>
        callback (eq ! i) = Inr (Some (out ! ?i')) \<and>
        callback (eq ! j) = Inr (Some (out ! ?j'))"
    using lt oj oi cb[OF i] cb[OF j] mi mj by simp
  then show "\<exists>i' j'. i' < j' \<and> j' < length out \<and>
               callback (eq ! i) = Inr (Some (out ! i')) \<and>
               callback (eq ! j) = Inr (Some (out ! j'))"
    by blast
next
  fix x :: equip and n
  assume x: "x \<in> set eq" and n: "name x = Some n"
  from transformation_named_callback[OF assms x n] obtain m
    where m: "callback x = Inr (Some m)" "m \<in> set out" by blast
  from n m(1) obtain cs
    where cs: "concat_slots x = Inr cs" "m = [n \<mapsto> filter lt_10000 cs]"
    by (auto simp: callback_def slot_values_def split: sum.splits)
  have "m n = Some (filter lt_10000 cs)" using cs(2) by simp
  moreover have "subseq (filter lt_10000 cs) cs" by simp
  ultimately show "\<exists>m\<in>set out. \<exists>cs vs. callback x = Inr (Some m) \<and> concat_slots x = Inr cs \<and>
               m n = Some vs \<and> subseq vs cs"
    using m cs(1) by blast
qed

theorem order_preserved_witness:
  "transformation
     [\<lparr>name = Some ''A'', accessory = Some [2], head = Some [10000], boots = Some [1],
        armor = Some [], pants = Some [], weapon = Some []\<rparr>,
      \<lparr>name = None, accessory = None, head = None, boots = None,
        armor = None, pants = None, weapon = None\<rparr>,
      \<lparr>name = Some ''B'', accessory = Some [7], head = Some [], boots = Some [],
        armor = Some [], pants = Some [], weapon = Some []\<rparr>]
     = Inr [[''A'' \<mapsto> [Num 2, Num 1]], [''B'' \<mapsto> [Num 7]]] \<and>
   (\<exists>i' j'. i' < j' \<and> j' < length [[''A'' \<mapsto> [Num 2, Num 1]], [''B'' \<mapsto> [Num 7]]] \<and>
      [[''A'' \<mapsto> [Num 2, Num 1]], [''B'' \<mapsto> [Num 7]]] ! i' = [''A'' \<mapsto> [Num 2, Num 1]] \<and>
      [[''A'' \<mapsto> [Num 2, Num 1]], [''B'' \<mapsto> [Num 7]]] ! j' = [''B'' \<mapsto> [Num 7]]) \<and>
   (\<exists>m vs. m \<in> set [[''A'' \<mapsto> [Num 2, Num 1]], [''B'' \<mapsto> [Num 7]]] \<and>
      m ''A'' = Some vs \<and> vs = [Num 2, Num 1] \<and> subseq vs [Num 2, Num 10000, Num 1])"
proof -
  let ?A = "\<lparr>name = Some ''A'', accessory = Some [2], head = Some [10000], boots = Some [1],
        armor = Some [], pants = Some [], weapon = Some []\<rparr>"
  let ?N = "\<lparr>name = None, accessory = None, head = None, boots = None,
        armor = None, pants = None, weapon = None\<rparr>"
  let ?B = "\<lparr>name = Some ''B'', accessory = Some [7], head = Some [], boots = Some [],
        armor = Some [], pants = Some [], weapon = Some []\<rparr>"
  let ?out = "[[''A'' \<mapsto> [Num 2, Num 1]], [''B'' \<mapsto> [Num 7]]]"
  have cA: "callback ?A = Inr (Some [''A'' \<mapsto> [Num 2, Num 1]])"
    by (simp add: callback_def slot_values_def concat_slots_def)
  have cB: "callback ?B = Inr (Some [''B'' \<mapsto> [Num 7]])"
    by (simp add: callback_def slot_values_def concat_slots_def)
  have cN: "callback ?N = Inr None"
    by (simp add: callback_def)
  have csA: "concat_slots ?A = Inr [Num 2, Num 10000, Num 1]"
    by (simp add: concat_slots_def)
  have tr: "transformation [?A, ?N, ?B] = Inr ?out"
    by (simp add: transformation_def cA cB cN)
  note op = order_preserved [OF tr]
  from op have "0 < (2::nat) \<and> 2 < length [?A, ?N, ?B] \<and> name ([?A, ?N, ?B] ! 0) \<noteq> None \<and>
      name ([?A, ?N, ?B] ! 2) \<noteq> None \<longrightarrow>
      (\<exists>i' j'. i' < j' \<and> j' < length ?out \<and>
         callback ([?A, ?N, ?B] ! 0) = Inr (Some (?out ! i')) \<and>
         callback ([?A, ?N, ?B] ! 2) = Inr (Some (?out ! j')))"
    by blast
  then have "\<exists>i' j'. i' < j' \<and> j' < length ?out \<and>
         callback ?A = Inr (Some (?out ! i')) \<and> callback ?B = Inr (Some (?out ! j'))"
    by simp
  then have pos: "\<exists>i' j'. i' < j' \<and> j' < length ?out \<and>
         ?out ! i' = [''A'' \<mapsto> [Num 2, Num 1]] \<and> ?out ! j' = [''B'' \<mapsto> [Num 7]]"
    unfolding cA cB by (metis sum.inject(2) option.inject)
  from op have "\<forall>x\<in>set [?A, ?N, ?B]. \<forall>n. name x = Some n \<longrightarrow>
            (\<exists>m\<in>set ?out. \<exists>cs vs. callback x = Inr (Some m) \<and> concat_slots x = Inr cs \<and>
               m n = Some vs \<and> subseq vs cs)"
    by blast
  moreover have "?A \<in> set [?A, ?N, ?B]" by simp
  moreover have "name ?A = Some ''A''" by simp
  ultimately have "\<exists>m\<in>set ?out. \<exists>cs vs. callback ?A = Inr (Some m) \<and> concat_slots ?A = Inr cs \<and>
               m ''A'' = Some vs \<and> subseq vs cs"
    by blast
  then obtain m cs vs where m: "m \<in> set ?out" and cm: "callback ?A = Inr (Some m)"
    and cc: "concat_slots ?A = Inr cs" and mv: "m ''A'' = Some vs" and sub: "subseq vs cs"
    by blast
  from cm cA have "m = [''A'' \<mapsto> [Num 2, Num 1]]" by simp
  with mv have v: "vs = [Num 2, Num 1]" by simp
  from cc csA have "cs = [Num 2, Num 10000, Num 1]" by simp
  with sub have sub': "subseq vs [Num 2, Num 10000, Num 1]" by simp
  from m mv v sub' have val: "\<exists>m vs. m \<in> set ?out \<and>
      m ''A'' = Some vs \<and> vs = [Num 2, Num 1] \<and> subseq vs [Num 2, Num 10000, Num 1]"
    by blast
  from tr pos val show ?thesis by blast
qed

text \<open>
  C10 (as amended). The claim that a named record lacking any one of the six slots makes
  the transformation raise is false on the code; what holds is this. When the first
  collected state holds \<^verbatim>\<open>savedequip\<close>: if some named record lacks \<^verbatim>\<open>accessory\<close>, the
  transformation raises, the activation ends with that error and \<^verbatim>\<open>fetch\<close> is not called; if
  every named record has \<^verbatim>\<open>accessory\<close> (nameless records arbitrary), the transformation
  returns and nothing is thrown; and a named record with \<^verbatim>\<open>accessory\<close> is mapped to its
  one-key object whatever other slots are absent, an absent slot contributing no element.
\<close>

theorem accessory_decides_error:
  assumes "snd (retrieve reactRoot) = s # rest" and "optimizer s = Some opt"
    and "savedequip opt = Some eq"
  shows "((\<exists>x\<in>set eq. name x \<noteq> None \<and> accessory x = None) \<longrightarrow>
            transformation eq = Inl ReadConcatOfUndefined \<and>
            thrown (click J reactRoot) = Some ReadConcatOfUndefined \<and>
            fetched (click J reactRoot) = []) \<and>
         ((\<forall>x\<in>set eq. name x \<noteq> None \<longrightarrow> accessory x \<noteq> None) \<longrightarrow>
            (\<exists>out. transformation eq = Inr out \<and> thrown (click J reactRoot) = None)) \<and>
         (\<forall>x n a. name x = Some n \<and> accessory x = Some a \<longrightarrow>
            callback x = Inr (Some [n \<mapsto> kept_slots a (present (head x)) (present (boots x))
              (present (armor x)) (present (pants x)) (present (weapon x))]))"
proof -
  have po: "payload_of (snd (retrieve reactRoot)) = transformation eq"
    using assms by (simp add: payload_of_def first_optimizer_def read_savedequip_def)
  have fails: "transformation eq = Inl ReadConcatOfUndefined \<and>
            thrown (click J reactRoot) = Some ReadConcatOfUndefined \<and>
            fetched (click J reactRoot) = []"
    if "\<exists>x\<in>set eq. name x \<noteq> None \<and> accessory x = None"
  proof -
    from that obtain x where x: "x \<in> set eq" "callback x = Inl ReadConcatOfUndefined"
      using callback_Inl by blast
    have "\<not> (\<exists>ys. map_pass eq = Inr ys)"
    proof
      assume "\<exists>ys. map_pass eq = Inr ys"
      then obtain ys where ys: "map_pass eq = Inr ys" by blast
      from x(1) obtain i where "i < length eq" "eq ! i = x" by (auto simp: in_set_conv_nth)
      with map_pass_Inr[OF ys] x(2) show False by auto
    qed
    then obtain e where e: "map_pass eq = Inl e" by (cases "map_pass eq") auto
    from map_pass_Inl[OF e] have "e = ReadConcatOfUndefined" using callback_Inl by blast
    with e have tr: "transformation eq = Inl ReadConcatOfUndefined"
      by (simp add: transformation_def)
    then show ?thesis by (simp add: click_unfold po)
  qed
  have returns: "\<exists>out. transformation eq = Inr out \<and> thrown (click J reactRoot) = None"
    if all: "\<forall>x\<in>set eq. name x \<noteq> None \<longrightarrow> accessory x \<noteq> None"
  proof -
    have "\<forall>x\<in>set eq. \<exists>y. callback x = Inr y"
    proof
      fix x assume "x \<in> set eq"
      with all have "\<not> (name x \<noteq> None \<and> accessory x = None)" by blast
      then have "\<not> (\<exists>e. callback x = Inl e)" using callback_Inl[of x] by blast
      then show "\<exists>y. callback x = Inr y" by (cases "callback x") auto
    qed
    from map_pass_total[OF this] obtain ys where "map_pass eq = Inr ys" by blast
    then have tr: "transformation eq = Inr (filter_pass ys)"
      by (simp add: transformation_def)
    then have "thrown (click J reactRoot) = None"
      by (simp add: click_unfold po)
    with tr show ?thesis by blast
  qed
  have absent: "callback x = Inr (Some [n \<mapsto> kept_slots a (present (head x)) (present (boots x))
              (present (armor x)) (present (pants x)) (present (weapon x))])"
    if "name x = Some n \<and> accessory x = Some a" for x :: equip and n a
    using that callback_named by blast
  from fails returns absent show ?thesis by blast
qed

theorem accessory_decides_error_witness:
  "transformation [\<lparr>name = Some ''A'', accessory = None, head = Some [1], boots = Some [],
      armor = Some [], pants = Some [], weapon = Some []\<rparr>] = Inl ReadConcatOfUndefined \<and>
   thrown (click (\<lambda>p. ''[]'') (host_page (Some (provider (saved_state
     [\<lparr>name = Some ''A'', accessory = None, head = Some [1], boots = Some [],
        armor = Some [], pants = Some [], weapon = Some []\<rparr>]) None))))
     = Some ReadConcatOfUndefined \<and>
   fetched (click (\<lambda>p. ''[]'') (host_page (Some (provider (saved_state
     [\<lparr>name = Some ''A'', accessory = None, head = Some [1], boots = Some [],
        armor = Some [], pants = Some [], weapon = Some []\<rparr>]) None)))) = [] \<and>
   (\<exists>out. transformation
       [\<lparr>name = Some ''B'', accessory = Some [1], head = None, boots = Some [10000],
          armor = None, pants = None, weapon = Some [3]\<rparr>,
        \<lparr>name = None, accessory = None, head = None, boots = None,
          armor = None, pants = None, weapon = None\<rparr>] = Inr out) \<and>
   thrown (click (\<lambda>p. ''[]'') (host_page (Some (provider (saved_state
       [\<lparr>name = Some ''B'', accessory = Some [1], head = None, boots = Some [10000],
          armor = None, pants = None, weapon = Some [3]\<rparr>,
        \<lparr>name = None, accessory = None, head = None, boots = None,
          armor = None, pants = None, weapon = None\<rparr>]) None)))) = None \<and>
   callback \<lparr>name = Some ''B'', accessory = Some [1], head = None, boots = Some [10000],
          armor = None, pants = None, weapon = Some [3]\<rparr> = Inr (Some [''B'' \<mapsto> [Num 1, Num 3]])"
proof -
  let ?bad = "[\<lparr>name = Some ''A'', accessory = None, head = Some [1], boots = Some [],
      armor = Some [], pants = Some [], weapon = Some []\<rparr>]"
  let ?B = "\<lparr>name = Some ''B'', accessory = Some [1], head = None, boots = Some [10000],
          armor = None, pants = None, weapon = Some [3]\<rparr>"
  let ?good = "[?B, \<lparr>name = None, accessory = None, head = None, boots = None,
          armor = None, pants = None, weapon = None\<rparr>]"
  let ?J = "\<lambda>p :: entry list. ''[]''"
  have r: "snd (retrieve (host_page (Some (provider (saved_state eq) None)))) = saved_state eq # []" for eq
    by (simp add: retrieve_def)
  have o: "optimizer (saved_state eq) = Some \<lparr>savedequip = Some eq\<rparr>" for eq
    by (simp add: saved_state_def)
  have s: "savedequip \<lparr>savedequip = Some eq\<rparr> = Some eq" for eq :: "equip list"
    by simp
  note bad = accessory_decides_error [OF r o s, of ?bad ?J]
  note good = accessory_decides_error [OF r o s, of ?good ?J]
  have "\<exists>x\<in>set ?bad. name x \<noteq> None \<and> accessory x = None" by simp
  with bad have b: "transformation ?bad = Inl ReadConcatOfUndefined \<and>
      thrown (click ?J (host_page (Some (provider (saved_state ?bad) None)))) = Some ReadConcatOfUndefined \<and>
      fetched (click ?J (host_page (Some (provider (saved_state ?bad) None)))) = []"
    by blast
  have "\<forall>x\<in>set ?good. name x \<noteq> None \<longrightarrow> accessory x \<noteq> None" by simp
  with good have g: "\<exists>out. transformation ?good = Inr out \<and>
      thrown (click ?J (host_page (Some (provider (saved_state ?good) None)))) = None"
    by blast
  from good have "name ?B = Some ''B'' \<and> accessory ?B = Some [1] \<longrightarrow>
      callback ?B = Inr (Some [''B'' \<mapsto> kept_slots [1] (present (head ?B)) (present (boots ?B))
              (present (armor ?B)) (present (pants ?B)) (present (weapon ?B))])"
    by blast
  then have c: "callback ?B = Inr (Some [''B'' \<mapsto> [Num 1, Num 3]])"
    by (simp add: kept_slots_def present_def)
  from b g c show ?thesis by blast
qed

text \<open>
  The input that refutes C10 as it was stated: a named record with \<^verbatim>\<open>accessory\<close> and no
  other slot. \<^verbatim>\<open>concat(undefined)\<close> appends \<^verbatim>\<open>undefined\<close>, the filter drops it, nothing is
  raised and the request is sent.
\<close>

theorem missing_slot_still_posts:
  "name \<lparr>name = Some ''A'', accessory = Some [1], head = None, boots = None,
      armor = None, pants = None, weapon = None\<rparr> = Some ''A'' \<and>
   head \<lparr>name = Some ''A'', accessory = Some [1], head = None, boots = None,
      armor = None, pants = None, weapon = None\<rparr> = None \<and>
   transformation [\<lparr>name = Some ''A'', accessory = Some [1], head = None, boots = None,
      armor = None, pants = None, weapon = None\<rparr>] = Inr [[''A'' \<mapsto> [Num 1]]] \<and>
   thrown (click (\<lambda>p. ''[{\"A\":[1]}]'') (host_page (Some (Fiber None (Some (provider (saved_state
      [\<lparr>name = Some ''A'', accessory = Some [1], head = None, boots = None,
         armor = None, pants = None, weapon = None\<rparr>]) None)))))) = None \<and>
   length (fetched (click (\<lambda>p. ''[{\"A\":[1]}]'') (host_page (Some (Fiber None (Some (provider (saved_state
      [\<lparr>name = Some ''A'', accessory = Some [1], head = None, boots = None,
         armor = None, pants = None, weapon = None\<rparr>]) None))))))) = 1"
proof -
  let ?eq = "[\<lparr>name = Some ''A'', accessory = Some [1], head = None, boots = None,
         armor = None, pants = None, weapon = None\<rparr>]"
  let ?root = "host_page (Some (Fiber None (Some (provider (saved_state ?eq) None))))"
  have t: "transformation ?eq = Inr [[''A'' \<mapsto> [Num 1]]]"
    by (simp add: transformation_def callback_def slot_values_def concat_slots_def)
  have r: "snd (retrieve ?root) = [saved_state ?eq]"
    by (simp add: retrieve_def)
  have p: "payload_of (snd (retrieve ?root)) = Inr [[''A'' \<mapsto> [Num 1]]]"
    unfolding r using t
    by (simp add: payload_of_def first_optimizer_def read_savedequip_def saved_state_def)
  show ?thesis using t by (simp add: click_unfold p)
qed

section \<open>The claims on the retrieval and the transmission\<close>

text \<open>
  C5. When no node reached from the internal root has a readable state (or the root lookup
  fails), the list of collected states is empty; and whenever it is empty, the activation
  ends with the error of reading \<^verbatim>\<open>optimizer\<close> on \<^verbatim>\<open>undefined\<close>, before the transformation,
  and \<^verbatim>\<open>fetch\<close> is not called.
\<close>

theorem no_state_reported_error:
  "((\<forall>base. lookup_internal_root reactRoot = Inr base \<longrightarrow>
        (\<forall>n\<in>set (child_chain base). \<exists>e. read_state n = Inl e))
      \<longrightarrow> snd (retrieve reactRoot) = []) \<and>
   (snd (retrieve reactRoot) = [] \<longrightarrow>
      thrown (click J reactRoot) = Some ReadOptimizerOfUndefined \<and>
      fetched (click J reactRoot) = [])"
proof (intro conjI impI)
  assume "\<forall>base. lookup_internal_root reactRoot = Inr base \<longrightarrow>
        (\<forall>n\<in>set (child_chain base). \<exists>e. read_state n = Inl e)"
  then show "snd (retrieve reactRoot) = []"
    by (simp add: retrieve_snd readable_states_empty split: sum.splits)
next
  assume e: "snd (retrieve reactRoot) = []"
  then have p: "payload_of (snd (retrieve reactRoot)) = Inl ReadOptimizerOfUndefined"
    by (simp add: payload_of_def first_optimizer_def)
  show "thrown (click J reactRoot) = Some ReadOptimizerOfUndefined"
    by (simp add: click_unfold p)
  show "fetched (click J reactRoot) = []"
    by (simp add: click_unfold p)
qed

theorem no_state_reported_error_witness:
  "lookup_internal_root (host_page (Some (Fiber None (Some (Fiber (Some \<lparr>store = None\<rparr>) None)))))
     = Inr (Some (Fiber None (Some (Fiber (Some \<lparr>store = None\<rparr>) None)))) \<and>
   read_state (Fiber None (Some (Fiber (Some \<lparr>store = None\<rparr>) None))) = Inl GetStateError \<and>
   read_state (Fiber (Some \<lparr>store = None\<rparr>) None) = Inl GetStateError \<and>
   snd (retrieve (host_page (Some (Fiber None (Some (Fiber (Some \<lparr>store = None\<rparr>) None)))))) = [] \<and>
   thrown (click (\<lambda>p. ''[]'') (host_page (Some (Fiber None (Some (Fiber (Some \<lparr>store = None\<rparr>) None))))))
     = Some ReadOptimizerOfUndefined \<and>
   fetched (click (\<lambda>p. ''[]'') (host_page (Some (Fiber None (Some (Fiber (Some \<lparr>store = None\<rparr>) None)))))) = []"
  using no_state_reported_error [of
      "host_page (Some (Fiber None (Some (Fiber (Some \<lparr>store = None\<rparr>) None))))" "\<lambda>p. ''[]''"]
  by (simp add: read_state_def)

text \<open>
  C6. A node whose accessor read fails leaves the collected states as they were and the
  walk goes on with its child; a failed root lookup writes exactly one message and the walk
  starts from \<^verbatim>\<open>undefined\<close>, which collects nothing; a root lookup that succeeds writes no
  message; and neither kind of failure is ever the exception that leaves the handler.
\<close>

theorem traversal_failures_caught:
  "(read_state (Fiber pp c) = Inl e \<longrightarrow>
      walk (Some (Fiber pp c)) appStates = walk c appStates) \<and>
   (lookup_internal_root reactRoot = Inl e' \<longrightarrow>
      retrieve reactRoot = ([root_message], [])) \<and>
   (lookup_internal_root reactRoot = Inr base \<longrightarrow>
      retrieve reactRoot = ([], readable_states (child_chain base))) \<and>
   thrown (click J reactRoot) \<noteq> Some RootLookupError \<and>
   thrown (click J reactRoot) \<noteq> Some GetStateError"
proof -
  have cb: "callback x \<noteq> Inl RootLookupError \<and> callback x \<noteq> Inl GetStateError" for x
    using callback_Inl[of x] by auto
  have tr: "transformation eq \<noteq> Inl RootLookupError \<and> transformation eq \<noteq> Inl GetStateError" for eq
  proof -
    have "transformation eq = Inl e' \<Longrightarrow> e' = ReadConcatOfUndefined" for e'
    proof -
      assume "transformation eq = Inl e'"
      then have "map_pass eq = Inl e'"
        by (auto simp: transformation_def split: sum.splits)
      from map_pass_Inl[OF this] show ?thesis using callback_Inl by blast
    qed
    then show ?thesis by blast
  qed
  have po: "payload_of st \<noteq> Inl RootLookupError \<and> payload_of st \<noteq> Inl GetStateError" for st
    using tr by (auto simp: payload_of_def first_optimizer_def read_savedequip_def
        split: sum.splits list.splits option.splits)
  have th: "thrown (click J reactRoot) \<noteq> Some RootLookupError \<and>
            thrown (click J reactRoot) \<noteq> Some GetStateError"
    using po[of "snd (retrieve reactRoot)"]
    by (cases "payload_of (snd (retrieve reactRoot))") (simp_all add: click_unfold)
  have w: "read_state (Fiber pp c) = Inl e \<longrightarrow>
      walk (Some (Fiber pp c)) appStates = walk c appStates"
    by (simp add: try_push_def)
  have r1: "lookup_internal_root reactRoot = Inl e' \<longrightarrow>
      retrieve reactRoot = ([root_message], [])"
    by (simp add: retrieve_def)
  have r2: "lookup_internal_root reactRoot = Inr base \<longrightarrow>
      retrieve reactRoot = ([], readable_states (child_chain base))"
    by (simp add: retrieve_def walk_chain)
  from w r1 r2 th show ?thesis by blast
qed

theorem traversal_failures_caught_witness:
  "read_state (Fiber None (Some (provider (saved_state []) None))) = Inl GetStateError \<and>
   walk (Some (Fiber None (Some (provider (saved_state []) None)))) [] = [saved_state []] \<and>
   lookup_internal_root (Some \<lparr>reactRootContainer = None\<rparr>) = Inl RootLookupError \<and>
   retrieve (Some \<lparr>reactRootContainer = None\<rparr>) = ([root_message], []) \<and>
   length (fst (retrieve (Some \<lparr>reactRootContainer = None\<rparr>))) = 1 \<and>
   retrieve (host_page (Some (Fiber None (Some (provider (saved_state []) None)))))
     = ([], [saved_state []]) \<and>
   thrown (click (\<lambda>p. ''[]'') (Some \<lparr>reactRootContainer = None\<rparr>)) = Some ReadOptimizerOfUndefined"
proof -
  have rs: "read_state (Fiber None (Some (provider (saved_state []) None))) = Inl GetStateError"
    by (simp add: read_state_def)
  have lk: "lookup_internal_root (Some \<lparr>reactRootContainer = None\<rparr>) = Inl RootLookupError"
    by (simp add: lookup_internal_root_def)
  note t1 = traversal_failures_caught [of None "Some (provider (saved_state []) None)"
      GetStateError "[]" "Some \<lparr>reactRootContainer = None\<rparr>" RootLookupError None "\<lambda>p. ''[]''"]
  note t2 = traversal_failures_caught [of None "Some (provider (saved_state []) None)"
      GetStateError "[]" "host_page (Some (Fiber None (Some (provider (saved_state []) None))))"
      RootLookupError "Some (Fiber None (Some (provider (saved_state []) None)))" "\<lambda>p. ''[]''"]
  from t1 rs have w: "walk (Some (Fiber None (Some (provider (saved_state []) None)))) [] = [saved_state []]"
    by simp
  from t1 lk have r: "retrieve (Some \<lparr>reactRootContainer = None\<rparr>) = ([root_message], [])"
    by simp
  from t2 have r2: "retrieve (host_page (Some (Fiber None (Some (provider (saved_state []) None)))))
     = ([], [saved_state []])"
    by (simp add: readable_states_Cons read_state_def provider_def)
  have th: "thrown (click (\<lambda>p. ''[]'') (Some \<lparr>reactRootContainer = None\<rparr>)) = Some ReadOptimizerOfUndefined"
    by (simp add: click_unfold r payload_of_def first_optimizer_def)
  from rs w lk r r2 th show ?thesis by simp
qed

text \<open>
  C7. An activation that gets as far as the payload calls \<^verbatim>\<open>fetch\<close> exactly once, with URL
  \<^verbatim>\<open>http://localhost:3000\<close>, method POST, the header \<^verbatim>\<open>Content-Type: application/json\<close> and
  the serialised transformed sequence as body, and throws nothing; when the request
  settles, fulfilled or rejected, exactly the message \<^verbatim>\<open>Done\<close> is written, whatever the
  response or the reason is.
\<close>

theorem single_post_request:
  assumes "payload_of (snd (retrieve reactRoot)) = Inr payload"
  shows "(\<exists>s rest opt eq. snd (retrieve reactRoot) = s # rest \<and> optimizer s = Some opt \<and>
            savedequip opt = Some eq \<and> transformation eq = Inr payload) \<and>
         fetched (click J reactRoot) =
           [\<lparr>url = ''http://localhost:3000'', http_method = ''POST'',
             headers = [(''Content-Type'', ''application/json'')],
             body = J payload\<rparr>] \<and>
         thrown (click J reactRoot) = None \<and>
         on_settled (Fulfilled response) = [''Done''] \<and>
         on_settled (Rejected reason) = [''Done'']"
proof -
  have src: "\<exists>s rest opt eq. snd (retrieve reactRoot) = s # rest \<and> optimizer s = Some opt \<and>
            savedequip opt = Some eq \<and> transformation eq = Inr payload"
    using assms
    by (auto simp: payload_of_def first_optimizer_def read_savedequip_def
        split: sum.splits list.splits option.splits)
  have f: "fetched (click J reactRoot) =
           [\<lparr>url = ''http://localhost:3000'', http_method = ''POST'',
             headers = [(''Content-Type'', ''application/json'')],
             body = J payload\<rparr>]"
    by (simp add: click_unfold assms)
  have t: "thrown (click J reactRoot) = None"
    by (simp add: click_unfold assms)
  have s: "on_settled (Fulfilled response) = [''Done''] \<and> on_settled (Rejected reason) = [''Done'']"
    by (simp add: on_settled_def)
  from src f t s show ?thesis by blast
qed

theorem single_post_request_witness:
  "payload_of (snd (retrieve (host_page (Some (Fiber None (Some (provider (saved_state
      [\<lparr>name = Some ''A'', accessory = Some [], head = Some [], boots = Some [],
         armor = Some [], pants = Some [], weapon = Some [1, 10000]\<rparr>]) None)))))))
     = Inr [[''A'' \<mapsto> [Num 1]]] \<and>
   fetched (click (\<lambda>p. ''[{\"A\":[1]}]'') (host_page (Some (Fiber None (Some (provider (saved_state
      [\<lparr>name = Some ''A'', accessory = Some [], head = Some [], boots = Some [],
         armor = Some [], pants = Some [], weapon = Some [1, 10000]\<rparr>]) None))))))
     = [\<lparr>url = ''http://localhost:3000'', http_method = ''POST'',
         headers = [(''Content-Type'', ''application/json'')],
         body = ''[{\"A\":[1]}]''\<rparr>] \<and>
   on_settled (Fulfilled ''ok'') = [''Done''] \<and>
   on_settled (Rejected ''TypeError: Failed to fetch'') = [''Done'']"
proof -
  let ?eq = "[\<lparr>name = Some ''A'', accessory = Some [], head = Some [], boots = Some [],
         armor = Some [], pants = Some [], weapon = Some [1, 10000]\<rparr>]"
  let ?root = "host_page (Some (Fiber None (Some (provider (saved_state ?eq) None))))"
  have r: "snd (retrieve ?root) = [saved_state ?eq]"
    by (simp add: retrieve_def)
  have t: "transformation ?eq = Inr [[''A'' \<mapsto> [Num 1]]]"
    by (simp add: transformation_def callback_def slot_values_def concat_slots_def)
  have p: "payload_of (snd (retrieve ?root)) = Inr [[''A'' \<mapsto> [Num 1]]]"
    unfolding r using t
    by (simp add: payload_of_def first_optimizer_def read_savedequip_def saved_state_def)
  from single_post_request [OF p, of "\<lambda>p. ''[{\"A\":[1]}]''" "''ok''" "''TypeError: Failed to fetch''"] p
  show ?thesis by simp
qed

text \<open>
  C8. The collected states are the readable states of the nodes of the \<^verbatim>\<open>child\<close> chain,
  parent first. What is handed to the transformation depends on the first collected state
  only: if it has no \<^verbatim>\<open>optimizer\<close>, the activation fails at the next read, whatever states
  follow it, and \<^verbatim>\<open>fetch\<close> is not called; if it has one with \<^verbatim>\<open>savedequip\<close>, that collection is
  transformed.
\<close>

theorem first_state_decides:
  "walk base [] = readable_states (child_chain base) \<and>
   payload_of (s # rest) = payload_of [s] \<and>
   (optimizer s = None \<longrightarrow> payload_of (s # rest) = Inl ReadSavedequipOfUndefined) \<and>
   (optimizer s = Some opt \<and> savedequip opt = Some eq \<longrightarrow>
      payload_of (s # rest) = transformation eq) \<and>
   (snd (retrieve reactRoot) = s # rest \<and> optimizer s = None \<longrightarrow>
      thrown (click J reactRoot) = Some ReadSavedequipOfUndefined \<and>
      fetched (click J reactRoot) = [])"
proof -
  have a: "walk base [] = readable_states (child_chain base)"
    by (simp add: walk_chain)
  have b: "payload_of (s # rest) = payload_of [s]"
    by (simp add: payload_of_def first_optimizer_def)
  have c: "optimizer s = None \<longrightarrow> payload_of (s # rest) = Inl ReadSavedequipOfUndefined"
    by (simp add: payload_of_def first_optimizer_def read_savedequip_def)
  have d: "optimizer s = Some opt \<and> savedequip opt = Some eq \<longrightarrow>
      payload_of (s # rest) = transformation eq"
    by (simp add: payload_of_def first_optimizer_def read_savedequip_def)
  have e: "thrown (click J reactRoot) = Some ReadSavedequipOfUndefined \<and>
      fetched (click J reactRoot) = []"
    if "snd (retrieve reactRoot) = s # rest" "optimizer s = None"
    using that c by (simp add: click_unfold)
  from a b c d e show ?thesis by blast
qed

theorem first_state_decides_witness:
  "walk (Some (provider \<lparr>optimizer = None\<rparr> (Some (provider (saved_state []) None)))) []
     = [\<lparr>optimizer = None\<rparr>, saved_state []] \<and>
   payload_of [\<lparr>optimizer = None\<rparr>, saved_state []] = Inl ReadSavedequipOfUndefined \<and>
   payload_of [saved_state []] = Inr [] \<and>
   thrown (click (\<lambda>p. ''[]'')
     (host_page (Some (provider \<lparr>optimizer = None\<rparr> (Some (provider (saved_state []) None))))))
     = Some ReadSavedequipOfUndefined \<and>
   fetched (click (\<lambda>p. ''[]'')
     (host_page (Some (provider \<lparr>optimizer = None\<rparr> (Some (provider (saved_state []) None)))))) = []"
proof -
  let ?base = "Some (provider \<lparr>optimizer = None\<rparr> (Some (provider (saved_state []) None)))"
  have w: "walk ?base [] = [\<lparr>optimizer = None\<rparr>, saved_state []]"
    by simp
  have r: "snd (retrieve (host_page ?base)) = [\<lparr>optimizer = None\<rparr>, saved_state []]"
    by (simp add: retrieve_def)
  note t1 = first_state_decides [of ?base "\<lparr>optimizer = None\<rparr>" "[saved_state []]"
      "\<lparr>savedequip = Some []\<rparr>" "[]" "host_page ?base" "\<lambda>p. ''[]''"]
  note t2 = first_state_decides [of ?base "saved_state []" "[]"
      "\<lparr>savedequip = Some []\<rparr>" "[]" "host_page ?base" "\<lambda>p. ''[]''"]
  from t1 have "optimizer \<lparr>optimizer = None\<rparr> = None \<longrightarrow>
      payload_of [\<lparr>optimizer = None\<rparr>, saved_state []] = Inl ReadSavedequipOfUndefined"
    by blast
  then have a: "payload_of [\<lparr>optimizer = None\<rparr>, saved_state []] = Inl ReadSavedequipOfUndefined"
    by simp
  from t2 have "optimizer (saved_state []) = Some \<lparr>savedequip = Some []\<rparr> \<and>
      savedequip \<lparr>savedequip = Some []\<rparr> = Some [] \<longrightarrow>
      payload_of [saved_state []] = transformation []"
    by blast
  then have b: "payload_of [saved_state []] = Inr []"
    by (simp add: saved_state_def transformation_def)
  from t1 have "snd (retrieve (host_page ?base)) = [\<lparr>optimizer = None\<rparr>, saved_state []] \<and>
      optimizer \<lparr>optimizer = None\<rparr> = None \<longrightarrow>
      thrown (click (\<lambda>p. ''[]'') (host_page ?base)) = Some ReadSavedequipOfUndefined \<and>
      fetched (click (\<lambda>p. ''[]'') (host_page ?base)) = []"
    by blast
  with r have c: "thrown (click (\<lambda>p. ''[]'') (host_page ?base)) = Some ReadSavedequipOfUndefined \<and>
      fetched (click (\<lambda>p. ''[]'') (host_page ?base)) = []"
    by simp
  from w a b c show ?thesis by simp
qed

section \<open>The claim on the control lifecycle\<close>

text \<open>
  C2. The claim asks that, when the tab gains the class \<^verbatim>\<open>active\<close> twice in a row, the
  first listener be cancelled before or when the second is attached. The code does not do
  that: \<^verbatim>\<open>addSyncButton\<close> overwrites \<^verbatim>\<open>controller\<close> without calling \<^verbatim>\<open>abort\<close> on the previous
  one. After the load, one loss of the class and two gains in a row, the listeners of the
  two last buttons both fire, both buttons were appended, and only the controller of the
  load has been aborted; after one more loss of the class the first of the two still fires,
  and no reference to its controller is left.
\<close>

theorem second_activation_keeps_first_listener:
  "live_listeners (run
     [Load True True,
      Mutations True [\<lparr>mtype = ''attributes'', attributeName = Some ''class'', target_classList = []\<rparr>],
      Mutations True [\<lparr>mtype = ''attributes'', attributeName = Some ''class'', target_classList = [''active'']\<rparr>],
      Mutations True [\<lparr>mtype = ''attributes'', attributeName = Some ''class'', target_classList = [''active'']\<rparr>]])
     = [1, 2] \<and>
   appended (run
     [Load True True,
      Mutations True [\<lparr>mtype = ''attributes'', attributeName = Some ''class'', target_classList = []\<rparr>],
      Mutations True [\<lparr>mtype = ''attributes'', attributeName = Some ''class'', target_classList = [''active'']\<rparr>],
      Mutations True [\<lparr>mtype = ''attributes'', attributeName = Some ''class'', target_classList = [''active'']\<rparr>]])
     = [0, 1, 2] \<and>
   aborted (run
     [Load True True,
      Mutations True [\<lparr>mtype = ''attributes'', attributeName = Some ''class'', target_classList = []\<rparr>],
      Mutations True [\<lparr>mtype = ''attributes'', attributeName = Some ''class'', target_classList = [''active'']\<rparr>],
      Mutations True [\<lparr>mtype = ''attributes'', attributeName = Some ''class'', target_classList = [''active'']\<rparr>]])
     = {0} \<and>
   live_listeners (run
     [Load True True,
      Mutations True [\<lparr>mtype = ''attributes'', attributeName = Some ''class'', target_classList = []\<rparr>],
      Mutations True [\<lparr>mtype = ''attributes'', attributeName = Some ''class'', target_classList = [''active'']\<rparr>],
      Mutations True [\<lparr>mtype = ''attributes'', attributeName = Some ''class'', target_classList = [''active'']\<rparr>],
      Mutations True [\<lparr>mtype = ''attributes'', attributeName = Some ''class'', target_classList = []\<rparr>]])
     = [1]"
  by (simp add: run_def setupSyncButton_def addSyncButton_def on_mutation_def abort_def
      live_listeners_def initial_page_def Let_def)

end
